theory Spec2Isabelle
  imports Complex_Main "HOL-Library.AList"
begin

section \<open>Data model of app.py\<close>

text \<open>
  The Python exceptions the core classes can raise: integer division by zero in
  \<^verbatim>\<open>_rebuild\<close>, a list index out of range in \<^verbatim>\<open>self.frames[fidx]\<close>, a missing
  dictionary key (or \<^verbatim>\<open>pop\<close> from an empty set), and \<^verbatim>\<open>random.randrange(0)\<close>.
\<close>

datatype py_error = ZeroDivisionError | IndexError | KeyError | ValueError

text \<open>\<^verbatim>\<open>class Frame\<close>: index, owner and display label.\<close>

record frame =
  idx :: nat
  pid :: "string option"
  label :: "string option"

text \<open>
  \<^verbatim>\<open>class MemoryManager\<close>. Dictionaries are association lists in insertion order
  (\<open>map_of\<close> looks a key up, \<open>AList.update\<close> assigns, \<open>AList.delete\<close> is \<^verbatim>\<open>del\<close>).
\<close>

record memory_manager =
  total_kb :: int
  frame_kb :: int
  frames :: "frame list"
  free_frames :: "nat set"
  pid_to_frames :: "(string \<times> nat set) list"
  page_faults :: int
  allocations :: int
  deallocations :: int

text \<open>A page table maps a page number to a frame index or to \<^verbatim>\<open>None\<close> (not resident).\<close>

type_synonym page_table = "(int \<times> nat option) list"

text \<open>
  \<^verbatim>\<open>class Pager\<close>. The pager holds a reference to the memory manager, so the manager
  is a field of the pager's state; \<open>lru\<close> is the \<^verbatim>\<open>OrderedDict\<close>, oldest entry first.
\<close>

record pager =
  mem :: memory_manager
  algorithm :: string
  page_tables :: "(string \<times> page_table) list"
  fifo :: "nat list"
  lru :: "((string \<times> int) \<times> real) list"

text \<open>
  What the code reads from outside: the element \<^verbatim>\<open>set.pop()\<close> removes (Python leaves
  the choice open), the value of \<^verbatim>\<open>random.randrange(n)\<close> and of \<^verbatim>\<open>time.time()\<close>.
\<close>

record env =
  set_pop :: "nat set \<Rightarrow> nat"
  randrange :: "nat \<Rightarrow> nat"
  time_now :: real

text \<open>
  An environment behaves like Python when \<^verbatim>\<open>pop\<close> returns a member of the (finite,
  non-empty) set and \<^verbatim>\<open>randrange(n)\<close> a value below \<open>n\<close>.
\<close>

definition env_ok :: "env \<Rightarrow> bool" where
  "env_ok orc \<longleftrightarrow>
     (\<forall>S. finite S \<and> S \<noteq> {} \<longrightarrow> set_pop orc S \<in> S) \<and>
     (\<forall>n. 0 < n \<longrightarrow> randrange orc n < n)"

section \<open>Formatting integers, as f-strings do\<close>

definition digit_chr :: "nat \<Rightarrow> char" where
  "digit_chr d = ''0123456789'' ! d"

fun str_nat :: "nat \<Rightarrow> string" where
  "str_nat n = (if n < 10 then [digit_chr n] else str_nat (n div 10) @ [digit_chr (n mod 10)])"

declare str_nat.simps [simp del]

definition str_int :: "int \<Rightarrow> string" where
  "str_int i = (if i < 0 then CHR ''-'' # str_nat (nat (- i)) else str_nat (nat i))"

section \<open>MemoryManager\<close>

text \<open>\<^verbatim>\<open>_rebuild\<close>: \<^verbatim>\<open>//\<close> is floor division and raises on a zero divisor.\<close>

definition rebuild :: "memory_manager \<Rightarrow> py_error + memory_manager" where
  "rebuild m =
     (if frame_kb m = 0 then Inl ZeroDivisionError
      else
        let n = nat (max 1 (total_kb m div frame_kb m)) in
        Inr (m\<lparr>frames := map (\<lambda>i. \<lparr>idx = i, pid = None, label = None\<rparr>) [0..<n],
               free_frames := set [0..<n],
               pid_to_frames := [],
               page_faults := 0,
               allocations := 0,
               deallocations := 0\<rparr>))"

text \<open>\<^verbatim>\<open>MemoryManager.__init__(total_kb, frame_kb)\<close>.\<close>

definition memory_manager_init :: "int \<Rightarrow> int \<Rightarrow> py_error + memory_manager" where
  "memory_manager_init t f =
     rebuild \<lparr>total_kb = t, frame_kb = f, frames = [], free_frames = {},
              pid_to_frames = [], page_faults = 0, allocations = 0, deallocations = 0\<rparr>"

text \<open>\<^verbatim>\<open>MemoryManager.reset(total_kb=None, frame_kb=None)\<close>.\<close>

definition mem_reset :: "int option \<Rightarrow> int option \<Rightarrow> memory_manager \<Rightarrow> py_error + memory_manager" where
  "mem_reset t f m =
     rebuild (m\<lparr>total_kb := (case t of None \<Rightarrow> total_kb m | Some v \<Rightarrow> v),
                frame_kb := (case f of None \<Rightarrow> frame_kb m | Some v \<Rightarrow> v)\<rparr>)"

definition used_and_total :: "memory_manager \<Rightarrow> nat \<times> nat" where
  "used_and_total m = (length (filter (\<lambda>f. pid f \<noteq> None) (frames m)), length (frames m))"

text \<open>
  The body of the loop of \<^verbatim>\<open>alloc_pages\<close>, \<open>k\<close> more times: pop a free index, read
  the frame (an index past the list raises), give it to the process.
\<close>

fun alloc_loop ::
  "env \<Rightarrow> string \<Rightarrow> nat \<Rightarrow> memory_manager \<Rightarrow> nat list \<Rightarrow> py_error + (memory_manager \<times> nat list)" where
  "alloc_loop orc p 0 m chosen = Inr (m, chosen)"
| "alloc_loop orc p (Suc k) m chosen =
     (if free_frames m = {} then Inl KeyError
      else
        let fidx = set_pop orc (free_frames m) in
        if fidx < length (frames m) then
          alloc_loop orc p k
            (m\<lparr>free_frames := free_frames m - {fidx},
               frames := (frames m)[fidx := (frames m ! fidx)\<lparr>pid := Some p, label := None\<rparr>]\<rparr>)
            (chosen @ [fidx])
        else Inl IndexError)"

text \<open>\<^verbatim>\<open>d.setdefault(p, set())\<close> read as a value: the set stored for \<open>p\<close>, or the empty one.\<close>

definition owned :: "(string \<times> nat set) list \<Rightarrow> string \<Rightarrow> nat set" where
  "owned d p = (case map_of d p of None \<Rightarrow> {} | Some S \<Rightarrow> S)"

definition alloc_pages ::
  "env \<Rightarrow> string \<Rightarrow> int \<Rightarrow> memory_manager \<Rightarrow> py_error + (memory_manager \<times> bool \<times> string)" where
  "alloc_pages orc p num_pages m =
     (if num_pages > int (card (free_frames m)) then Inr (m, False, ''Not enough free frames'')
      else
        (case alloc_loop orc p (nat num_pages) m [] of
           Inl e \<Rightarrow> Inl e
         | Inr (m1, chosen) \<Rightarrow>
             Inr (m1\<lparr>pid_to_frames :=
                       AList.update p (owned (pid_to_frames m1) p \<union> set chosen) (pid_to_frames m1),
                     allocations := allocations m1 + 1\<rparr>,
                  True,
                  ''Allocated '' @ str_int num_pages @ '' frames to '' @ p)))"

text \<open>
  The three lines every release path repeats: read \<^verbatim>\<open>self.frames[fidx]\<close>, clear owner
  and label, add the index to the free set.
\<close>

definition release_frame :: "nat \<Rightarrow> memory_manager \<Rightarrow> py_error + memory_manager" where
  "release_frame fidx m =
     (if fidx < length (frames m) then
        Inr (m\<lparr>frames := (frames m)[fidx := (frames m ! fidx)\<lparr>pid := None, label := None\<rparr>],
               free_frames := insert fidx (free_frames m)\<rparr>)
      else Inl IndexError)"

fun release_frames :: "nat list \<Rightarrow> memory_manager \<Rightarrow> py_error + memory_manager" where
  "release_frames [] m = Inr m"
| "release_frames (fidx # rest) m =
     (case release_frame fidx m of Inl e \<Rightarrow> Inl e | Inr m' \<Rightarrow> release_frames rest m')"

text \<open>
  \<^verbatim>\<open>free_pid\<close>. The loop runs over the process's set in the set's own order; the
  outcome does not depend on that order, and the model takes the indices in
  increasing order.
\<close>

definition free_pid :: "string \<Rightarrow> memory_manager \<Rightarrow> py_error + (memory_manager \<times> bool \<times> string)" where
  "free_pid p m =
     (case map_of (pid_to_frames m) p of
        None \<Rightarrow> Inr (m, False, ''PID not found'')
      | Some S \<Rightarrow>
          (case release_frames (sorted_list_of_set S) m of
             Inl e \<Rightarrow> Inl e
           | Inr m' \<Rightarrow>
               Inr (m'\<lparr>pid_to_frames := AList.delete p (pid_to_frames m'),
                       deallocations := deallocations m' + 1\<rparr>,
                    True, ''Deallocated '' @ p)))"

section \<open>Pager\<close>

definition pager_init :: "memory_manager \<Rightarrow> string \<Rightarrow> pager" where
  "pager_init m alg = \<lparr>mem = m, algorithm = alg, page_tables = [], fifo = [], lru = []\<rparr>"

definition pager_reset :: "string option \<Rightarrow> pager \<Rightarrow> pager" where
  "pager_reset alg s =
     s\<lparr>algorithm := (case alg of None \<Rightarrow> algorithm s | Some a \<Rightarrow> a),
       page_tables := [], fifo := [], lru := []\<rparr>"

definition create_process :: "string \<Rightarrow> int \<Rightarrow> pager \<Rightarrow> pager" where
  "create_process p num_pages s =
     s\<lparr>page_tables :=
         AList.update p (map (\<lambda>i. (int i, None)) [0..<nat num_pages]) (page_tables s)\<rparr>"

text \<open>The frame indices of the resident entries of a page table, in the table's order.\<close>

definition resident_frames :: "page_table \<Rightarrow> nat list" where
  "resident_frames t = List.map_filter snd t"

definition deallocate_pid :: "string \<Rightarrow> pager \<Rightarrow> py_error + pager" where
  "deallocate_pid p s =
     (case map_of (page_tables s) p of
        None \<Rightarrow> Inr s
      | Some t \<Rightarrow>
          (case release_frames (resident_frames t) (mem s) of
             Inl e \<Rightarrow> Inl e
           | Inr m' \<Rightarrow>
               Inr (s\<lparr>mem := m',
                      page_tables := AList.delete p (page_tables s),
                      lru := filter (\<lambda>(k, ts). fst k \<noteq> p) (lru s)\<rparr>)))"

text \<open>\<^verbatim>\<open>self.lru[key] = time.time(); self.lru.move_to_end(key)\<close>.\<close>

definition lru_touch ::
  "string \<times> int \<Rightarrow> real \<Rightarrow> ((string \<times> int) \<times> real) list \<Rightarrow> ((string \<times> int) \<times> real) list" where
  "lru_touch key now l = AList.delete key l @ [(key, now)]"

definition py_randrange :: "env \<Rightarrow> nat \<Rightarrow> py_error + nat" where
  "py_randrange orc n = (if n = 0 then Inl ValueError else Inr (randrange orc n))"

text \<open>
  The \<^verbatim>\<open>else\<close> branch of \<^verbatim>\<open>access_page\<close> under the comment \<^verbatim>\<open>choose victim\<close>: the
  frame index to reuse and the pager after the victim's bookkeeping.
\<close>

definition choose_victim :: "env \<Rightarrow> pager \<Rightarrow> py_error + (nat \<times> pager)" where
  "choose_victim orc s =
     (if algorithm s = ''FIFO'' then
        (case fifo s of
           fidx # rest \<Rightarrow> Inr (fidx, s\<lparr>fifo := rest\<rparr>)
         | [] \<Rightarrow>
             (case py_randrange orc (length (frames (mem s))) of
                Inl e \<Rightarrow> Inl e
              | Inr fidx \<Rightarrow> Inr (fidx, s)))
      else
        (case lru s of
           [] \<Rightarrow>
             (case py_randrange orc (length (frames (mem s))) of
                Inl e \<Rightarrow> Inl e
              | Inr fidx \<Rightarrow> Inr (fidx, s))
         | ((vpid, vp), ts) # rest \<Rightarrow>
             (case map_of (page_tables s) vpid of
                None \<Rightarrow> Inl KeyError
              | Some vt \<Rightarrow>
                  (case map_of vt vp of
                     None \<Rightarrow> Inl KeyError
                   | Some old_frame \<Rightarrow>
                       (case (case old_frame of
                                None \<Rightarrow> Inr (mem s)
                              | Some f \<Rightarrow> release_frame f (mem s)) of
                          Inl e \<Rightarrow> Inl e
                        | Inr m' \<Rightarrow>
                            let s' = s\<lparr>mem := m', lru := rest,
                                       page_tables :=
                                         AList.update vpid (AList.update vp None vt) (page_tables s)\<rparr>
                            in (case old_frame of
                                  Some f \<Rightarrow> Inr (f, s')
                                | None \<Rightarrow>
                                    (case py_randrange orc (length (frames m')) of
                                       Inl e \<Rightarrow> Inl e
                                     | Inr fidx \<Rightarrow> Inr (fidx, s'))))))))"

text \<open>
  Lines 151 to 164 of \<^verbatim>\<open>access_page\<close>: give frame \<open>fidx\<close> to page \<open>page_no\<close> of
  process \<open>p\<close> and record the load under the active policy.
\<close>

definition table_of :: "(string \<times> page_table) list \<Rightarrow> string \<Rightarrow> page_table" where
  "table_of pts p = (case map_of pts p of None \<Rightarrow> [] | Some t \<Rightarrow> t)"

definition load_page ::
  "env \<Rightarrow> string \<Rightarrow> int \<Rightarrow> nat \<Rightarrow> pager \<Rightarrow> py_error + (pager \<times> bool \<times> string)" where
  "load_page orc p page_no fidx s =
     (if fidx < length (frames (mem s)) then
        let m = mem s;
            m' = m\<lparr>frames :=
                     (frames m)[fidx := (frames m ! fidx)\<lparr>pid := Some p,
                                                         label := Some (''p'' @ str_int page_no)\<rparr>],
                   pid_to_frames :=
                     AList.update p (insert fidx (owned (pid_to_frames m) p)) (pid_to_frames m)\<rparr>;
            s1 = s\<lparr>mem := m',
                   page_tables :=
                     AList.update p (AList.update page_no (Some fidx) (table_of (page_tables s) p))
                       (page_tables s)\<rparr>;
            s2 = (if algorithm s1 = ''FIFO'' then s1\<lparr>fifo := fifo s1 @ [fidx]\<rparr>
                  else s1\<lparr>lru := lru_touch (p, page_no) (time_now orc) (lru s1)\<rparr>)
        in Inr (s2, True, ''loaded in frame '' @ str_nat fidx)
      else Inl IndexError)"

definition access_page ::
  "env \<Rightarrow> string \<Rightarrow> int \<Rightarrow> pager \<Rightarrow> py_error + (pager \<times> bool \<times> string)" where
  "access_page orc p page_no s0 =
     (let s1 = s0\<lparr>mem := (mem s0)\<lparr>page_faults := page_faults (mem s0) + 1\<rparr>\<rparr>;
          s2 = (case map_of (page_tables s1) p of
                  None \<Rightarrow> s1\<lparr>page_tables := page_tables s1 @ [(p, [])]\<rparr>
                | Some t \<Rightarrow> s1)
      in (case map_of (table_of (page_tables s2) p) page_no of
            Some (Some f) \<Rightarrow>
              Inr (if algorithm s2 = ''LRU''
                   then s2\<lparr>lru := lru_touch (p, page_no) (time_now orc) (lru s2)\<rparr>
                   else s2,
                   True, ''hit'')
          | _ \<Rightarrow>
              (if free_frames (mem s2) \<noteq> {} then
                 let fidx = set_pop orc (free_frames (mem s2)) in
                 load_page orc p page_no fidx
                   (s2\<lparr>mem := (mem s2)\<lparr>free_frames := free_frames (mem s2) - {fidx}\<rparr>\<rparr>)
               else
                 (case choose_victim orc s2 of
                    Inl e \<Rightarrow> Inl e
                  | Inr (fidx, s3) \<Rightarrow> load_page orc p page_no fidx s3))))"

section \<open>Start-up and sequences of calls\<close>

text \<open>
  The module's start-up: \<^verbatim>\<open>MemoryManager(total_kb, frame_kb)\<close>, then
  \<^verbatim>\<open>Pager(mem, algorithm)\<close> over it.
\<close>

definition start :: "int \<Rightarrow> int \<Rightarrow> string \<Rightarrow> py_error + pager" where
  "start t f alg =
     (case memory_manager_init t f of Inl e \<Rightarrow> Inl e | Inr m \<Rightarrow> Inr (pager_init m alg))"

text \<open>
  The calls a driver can make on the pager and on the memory manager it holds, apart
  from \<^verbatim>\<open>MemoryManager.reset\<close>. A call that raises ends the run.
\<close>

datatype call =
    AccessPage env string int
  | CreateProcess string int
  | DeallocatePid string
  | FreePid string
  | AllocPages env string int
  | PagerReset "string option"

fun is_access :: "call \<Rightarrow> bool" where
  "is_access (AccessPage orc p n) = True"
| "is_access c = False"

fun do_call :: "call \<Rightarrow> pager \<Rightarrow> py_error + pager" where
  "do_call (AccessPage orc p n) s =
     (case access_page orc p n s of Inl e \<Rightarrow> Inl e | Inr (s', r) \<Rightarrow> Inr s')"
| "do_call (CreateProcess p n) s = Inr (create_process p n s)"
| "do_call (DeallocatePid p) s = deallocate_pid p s"
| "do_call (FreePid p) s =
     (case free_pid p (mem s) of Inl e \<Rightarrow> Inl e | Inr (m', r) \<Rightarrow> Inr (s\<lparr>mem := m'\<rparr>))"
| "do_call (AllocPages orc p n) s =
     (case alloc_pages orc p n (mem s) of Inl e \<Rightarrow> Inl e | Inr (m', r) \<Rightarrow> Inr (s\<lparr>mem := m'\<rparr>))"
| "do_call (PagerReset a) s = Inr (pager_reset a s)"

fun run :: "call list \<Rightarrow> pager \<Rightarrow> py_error + pager" where
  "run [] s = Inr s"
| "run (c # cs) s = (case do_call c s of Inl e \<Rightarrow> Inl e | Inr s' \<Rightarrow> run cs s')"

definition run_from :: "int \<Rightarrow> int \<Rightarrow> string \<Rightarrow> call list \<Rightarrow> py_error + pager" where
  "run_from t f alg cs = (case start t f alg of Inl e \<Rightarrow> Inl e | Inr s \<Rightarrow> run cs s)"

text \<open>
  One admissible environment, used for concrete runs: \<^verbatim>\<open>pop\<close> takes the least index
  (the order in which CPython empties a fresh \<^verbatim>\<open>set(range(n))\<close> of a few frames).
\<close>

definition lowest_first :: env where
  "lowest_first = \<lparr>set_pop = Min, randrange = (\<lambda>n. 0), time_now = 0\<rparr>"

section \<open>State predicates\<close>

text \<open>The sum over all processes of the sizes of their owned-frame sets.\<close>

definition owned_total :: "memory_manager \<Rightarrow> nat" where
  "owned_total m = sum_list (map (\<lambda>(p, S). card S) (pid_to_frames m))"

definition conservation :: "memory_manager \<Rightarrow> bool" where
  "conservation m \<longleftrightarrow> card (free_frames m) + owned_total m = length (frames m)"

text \<open>Page \<open>n\<close> of process \<open>p\<close> is resident: its entry holds a frame index.\<close>

definition entry :: "pager \<Rightarrow> string \<Rightarrow> int \<Rightarrow> nat option option" where
  "entry s p n = map_of (table_of (page_tables s) p) n"

text \<open>
  What \<^verbatim>\<open>access_page\<close> relies on in order not to raise: a pool with a frame, free and
  queued indices inside the frame list, and every \<open>lru\<close> key present in its
  process's page table with an index inside the frame list.
\<close>

definition pager_wf :: "pager \<Rightarrow> bool" where
  "pager_wf s \<longleftrightarrow>
     frames (mem s) \<noteq> [] \<and>
     finite (free_frames (mem s)) \<and>
     free_frames (mem s) \<subseteq> {..<length (frames (mem s))} \<and>
     set (fifo s) \<subseteq> {..<length (frames (mem s))} \<and>
     (\<forall>vpid vp ts. ((vpid, vp), ts) \<in> set (lru s) \<longrightarrow>
        (\<exists>vt e. map_of (page_tables s) vpid = Some vt \<and> map_of vt vp = Some e \<and>
                 (\<forall>f. e = Some f \<longrightarrow> f < length (frames (mem s)))))"

section \<open>Concrete runs on the two-frame pool\<close>

lemma upt_0_2: "[0..<2] = [0, Suc 0]"
  by (simp add: numeral_2_eq_2)

lemma range_0_2: "{0..<2::nat} = {0, Suc 0}"
  by auto

lemma start_128_64:
  "start 128 64 alg =
     Inr \<lparr>mem = \<lparr>total_kb = 128, frame_kb = 64,
                 frames = [\<lparr>idx = 0, pid = None, label = None\<rparr>,
                           \<lparr>idx = 1, pid = None, label = None\<rparr>],
                 free_frames = {0, 1}, pid_to_frames = [], page_faults = 0,
                 allocations = 0, deallocations = 0\<rparr>,
          algorithm = alg, page_tables = [], fifo = [], lru = []\<rparr>"
  by (simp add: start_def pager_init_def memory_manager_init_def rebuild_def upt_0_2 range_0_2)

lemmas run_defs =
  run_from_def lowest_first_def access_page_def load_page_def choose_victim_def
  table_of_def owned_def lru_touch_def release_frame_def entry_def deallocate_pid_def
  free_pid_def resident_frames_def str_int_def str_nat.simps digit_chr_def insert_commute

text \<open>
  C1 (conservation). Capacity 128 with frame size 64 gives two frames. Under LRU, process
  P1 touches pages 0, 1, 0 and 2. The last access evicts page 1: the code adds its frame
  to the free set and reuses it at once without taking it out again, so the free set
  holds index 1 while P1 owns both frames: one free index plus two owned indices is
  three, and the pool has two frames. Conservation does not hold in this state.
\<close>

theorem conservation_broken_by_lru_eviction:
  "\<exists>s. run_from 128 64 ''LRU''
         [AccessPage lowest_first ''P1'' 0, AccessPage lowest_first ''P1'' 1,
          AccessPage lowest_first ''P1'' 0, AccessPage lowest_first ''P1'' 2] = Inr s \<and>
       free_frames (mem s) = {1} \<and>
       pid_to_frames (mem s) = [(''P1'', {0, 1})] \<and>
       length (frames (mem s)) = 2 \<and>
       card (free_frames (mem s)) + owned_total (mem s) = 3 \<and>
       \<not> conservation (mem s)"
  by (simp add: start_128_64 run_defs conservation_def owned_total_def)

text \<open>
  C2 (single ownership). Two frames, LRU. P1 loads pages 0 and 1, then P2 touches its
  page 0. The eviction hands frame 0 to P2 and adds it to P2's owned set, and nothing
  removes it from P1's: frame 0 is in both owned sets.
\<close>

theorem frame_owned_twice_after_eviction:
  "\<exists>s. run_from 128 64 ''LRU''
         [AccessPage lowest_first ''P1'' 0, AccessPage lowest_first ''P1'' 1,
          AccessPage lowest_first ''P2'' 0] = Inr s \<and>
       pid_to_frames (mem s) = [(''P1'', {0, 1}), (''P2'', {0})] \<and>
       0 \<in> owned (pid_to_frames (mem s)) ''P1'' \<and>
       0 \<in> owned (pid_to_frames (mem s)) ''P2''"
  by (simp add: start_128_64 run_defs)

text \<open>
  C3 (page table entries point at frames of their own process). Two frames, FIFO. P1
  loads pages 0 and 1, then P2 touches its page 0 and takes frame 0 from the head of
  the queue. P1's entry for page 0 still holds frame 0, whose recorded owner is now P2.
\<close>

theorem fifo_eviction_leaves_foreign_entry:
  "\<exists>s. run_from 128 64 ''FIFO''
         [AccessPage lowest_first ''P1'' 0, AccessPage lowest_first ''P1'' 1,
          AccessPage lowest_first ''P2'' 0] = Inr s \<and>
       entry s ''P1'' 0 = Some (Some 0) \<and>
       entry s ''P2'' 0 = Some (Some 0) \<and>
       pid (frames (mem s) ! 0) = Some ''P2''"
  by (simp add: start_128_64 run_defs)

text \<open>
  C4 (FIFO eviction). Two frames, FIFO, P1 has loaded pages 0 and 1: no frame is free
  and the queue is 0, 1. The access to page 2 takes frame 0, the head of the queue, as
  the claim says; but the entry of the evicted page 0 is not set to absent (it still
  holds frame 0, as the entry of page 2 now does) and the frame never passes through
  the free set.
\<close>

theorem fifo_eviction_keeps_victim_entry:
  "\<exists>s2 s3.
     run_from 128 64 ''FIFO''
       [AccessPage lowest_first ''P1'' 0, AccessPage lowest_first ''P1'' 1] = Inr s2 \<and>
     free_frames (mem s2) = {} \<and> fifo s2 = [0, 1] \<and>
     entry s2 ''P1'' 0 = Some (Some 0) \<and>
     access_page lowest_first ''P1'' 2 s2 = Inr (s3, True, ''loaded in frame 0'') \<and>
     entry s3 ''P1'' 0 = Some (Some 0) \<and>
     entry s3 ''P1'' 2 = Some (Some 0) \<and>
     free_frames (mem s3) = {} \<and> fifo s3 = [1, 0]"
  by (simp add: start_128_64 run_defs)

text \<open>
  C5 (teardown). Two frames, FIFO. P1 loads page 0 and is torn down with
  \<^verbatim>\<open>deallocate_pid\<close>: its page table is gone and both frames are free, but the
  load-order queue still holds frame 0, also after the \<^verbatim>\<open>free_pid\<close> that the
  deallocation handler calls next.
\<close>

theorem teardown_keeps_fifo_queue:
  "\<exists>s s'.
     run_from 128 64 ''FIFO'' [AccessPage lowest_first ''P1'' 0, DeallocatePid ''P1''] = Inr s \<and>
     page_tables s = [] \<and> free_frames (mem s) = {0, 1} \<and> fifo s = [0] \<and>
     run_from 128 64 ''FIFO''
       [AccessPage lowest_first ''P1'' 0, DeallocatePid ''P1'', FreePid ''P1''] = Inr s' \<and>
     pid_to_frames (mem s') = [] \<and> fifo s' = [0]"
  by (simp add: start_128_64 run_defs)

text \<open>
  C6 (degenerate configuration). With frame size zero, building the pool raises
  \<^verbatim>\<open>ZeroDivisionError\<close>, at construction and at \<^verbatim>\<open>reset\<close>, whatever the capacity.
\<close>

theorem zero_frame_size_raises:
  "memory_manager_init t 0 = Inl ZeroDivisionError \<and>
   mem_reset t' (Some 0) m = Inl ZeroDivisionError"
  by (simp add: memory_manager_init_def mem_reset_def rebuild_def)

section \<open>What the release paths do in general\<close>

text \<open>
  With a frame size other than zero, \<^verbatim>\<open>_rebuild\<close> returns a pool of
  \<open>max 1 (total_kb div frame_kb)\<close> frames, all free and unowned, with the counters at
  zero: zero or negative capacity and negative frame size are clamped to one frame.
\<close>

lemma rebuild_clamps:
  assumes "frame_kb m \<noteq> 0"
  shows "\<exists>m'. rebuild m = Inr m' \<and>
           length (frames m') = nat (max 1 (total_kb m div frame_kb m)) \<and>
           1 \<le> length (frames m') \<and>
           free_frames m' = {..<length (frames m')} \<and>
           list_all (\<lambda>f. pid f = None \<and> label f = None) (frames m') \<and>
           pid_to_frames m' = [] \<and>
           page_faults m' = 0 \<and> allocations m' = 0 \<and> deallocations m' = 0"
  using assms by (auto simp: rebuild_def Let_def list_all_iff)

text \<open>
  \<^verbatim>\<open>deallocate_pid\<close> removes the page table and, for a process that had one, every
  \<open>lru\<close> key of the process; it never changes the \<open>fifo\<close> queue.
\<close>

lemma deallocate_pid_bookkeeping:
  assumes "deallocate_pid p s = Inr s'"
  shows "map_of (page_tables s') p = None \<and> fifo s' = fifo s \<and>
         (map_of (page_tables s) p \<noteq> None \<longrightarrow> list_all (\<lambda>(k, ts). fst k \<noteq> p) (lru s'))"
  using assms
  by (auto simp: deallocate_pid_def delete_conv' list_all_iff split: option.splits sum.splits)

text \<open>
  Under FIFO with a non-empty queue, choosing the victim pops the head of the queue
  and changes nothing else: no page table, no frame, not the free set.
\<close>

lemma fifo_eviction_touches_no_entry:
  assumes "algorithm s = ''FIFO''" "fifo s = v # rest"
  shows "choose_victim orc s = Inr (v, s\<lparr>fifo := rest\<rparr>)"
  using assms by (simp add: choose_victim_def)

section \<open>Allocation\<close>

lemma env_ok_lowest_first: "env_ok lowest_first"
  by (simp add: env_ok_def lowest_first_def)

lemma alloc_loop_succeeds:
  "env_ok orc \<Longrightarrow> finite (free_frames m) \<Longrightarrow> free_frames m \<subseteq> {..<length (frames m)} \<Longrightarrow>
   k \<le> card (free_frames m) \<Longrightarrow> \<exists>m' ch. alloc_loop orc p k m chosen = Inr (m', ch)"
proof (induction k arbitrary: m chosen)
  case 0
  then show ?case by simp
next
  case (Suc k)
  let ?f = "set_pop orc (free_frames m)"
  from Suc.prems have ne: "free_frames m \<noteq> {}" by auto
  with Suc.prems have mem: "?f \<in> free_frames m" by (simp add: env_ok_def)
  with Suc.prems have lt: "?f < length (frames m)" by auto
  let ?m = "m\<lparr>free_frames := free_frames m - {?f},
               frames := (frames m)[?f := (frames m ! ?f)\<lparr>pid := Some p, label := None\<rparr>]\<rparr>"
  have "finite (free_frames ?m)" using Suc.prems by simp
  moreover have "free_frames ?m \<subseteq> {..<length (frames ?m)}" using Suc.prems by auto
  moreover have "k \<le> card (free_frames ?m)" using Suc.prems mem by simp
  ultimately obtain m' ch where "alloc_loop orc p k ?m (chosen @ [?f]) = Inr (m', ch)"
    using Suc.IH [of ?m "chosen @ [?f]"] Suc.prems(1) by blast
  with ne lt show ?case by (simp add: Let_def)
qed

text \<open>
  C7. In a pool whose free indices lie inside the frame list, and with \<^verbatim>\<open>set.pop()\<close>
  returning a member of the set, \<^verbatim>\<open>alloc_pages\<close> returns the success status exactly
  when the requested count is at most the number of free frames; when the count is
  larger it returns the failure status and the manager it was given, unchanged.
\<close>

theorem alloc_pages_succeeds_iff_enough_free:
  assumes "env_ok orc" "finite (free_frames m)" "free_frames m \<subseteq> {..<length (frames m)}"
  shows "((\<exists>m' msg. alloc_pages orc p n m = Inr (m', True, msg)) \<longleftrightarrow> n \<le> int (card (free_frames m))) \<and>
         (\<not> n \<le> int (card (free_frames m)) \<longrightarrow>
            alloc_pages orc p n m = Inr (m, False, ''Not enough free frames''))"
proof (cases "n \<le> int (card (free_frames m))")
  case True
  then have "nat n \<le> card (free_frames m)" by simp
  from alloc_loop_succeeds [OF assms this]
  obtain m' ch where "alloc_loop orc p (nat n) m [] = Inr (m', ch)" by blast
  with True show ?thesis by (simp add: alloc_pages_def)
next
  case False
  then show ?thesis by (simp add: alloc_pages_def)
qed


theorem alloc_pages_succeeds_iff_enough_free_witness:
  "\<exists>s. start 128 64 ''FIFO'' = Inr s \<and>
       env_ok lowest_first \<and> finite (free_frames (mem s)) \<and>
       free_frames (mem s) \<subseteq> {..<length (frames (mem s))} \<and>
       (\<exists>m' msg. alloc_pages lowest_first ''P1'' 2 (mem s) = Inr (m', True, msg)) \<and>
       alloc_pages lowest_first ''P1'' 3 (mem s) = Inr (mem s, False, ''Not enough free frames'')"
proof -
  have "\<exists>s. start 128 64 ''FIFO'' = Inr s \<and> free_frames (mem s) = {0, 1} \<and>
            length (frames (mem s)) = 2"
    by (simp add: start_128_64)
  then obtain s where s: "start 128 64 ''FIFO'' = Inr s"
    and fr: "free_frames (mem s) = {0, 1}" and len: "length (frames (mem s)) = 2"
    by blast
  have h1: "env_ok lowest_first" by (rule env_ok_lowest_first)
  have h2: "finite (free_frames (mem s))" using fr by simp
  have h3: "free_frames (mem s) \<subseteq> {..<length (frames (mem s))}" using fr len by auto
  note T = alloc_pages_succeeds_iff_enough_free [OF h1 h2 h3]
  from T [of "''P1''" 2] fr
  have a: "\<exists>m' msg. alloc_pages lowest_first ''P1'' 2 (mem s) = Inr (m', True, msg)" by simp
  from T [of "''P1''" 3] fr
  have b: "alloc_pages lowest_first ''P1'' 3 (mem s) = Inr (mem s, False, ''Not enough free frames'')"
    by simp
  from s h1 h2 h3 a b show ?thesis by blast
qed

section \<open>The access counter\<close>

lemma release_frame_page_faults:
  "release_frame f m = Inr m' \<Longrightarrow> page_faults m' = page_faults m"
  by (auto simp: release_frame_def split: if_splits)

lemma release_frames_page_faults:
  "release_frames fs m = Inr m' \<Longrightarrow> page_faults m' = page_faults m"
proof (induction fs arbitrary: m)
  case Nil
  then show ?case by simp
next
  case (Cons f fs)
  then show ?case
    by (auto split: sum.splits dest: release_frame_page_faults)
qed

lemma alloc_loop_page_faults:
  "alloc_loop orc p k m ch = Inr (m', ch') \<Longrightarrow> page_faults m' = page_faults m"
proof (induction k arbitrary: m ch)
  case 0
  then show ?case by simp
next
  case (Suc k)
  then show ?case
    by (fastforce simp: Let_def split: if_splits)
qed

lemma alloc_pages_page_faults:
  "alloc_pages orc p n m = Inr (m', r) \<Longrightarrow> page_faults m' = page_faults m"
  by (auto simp: alloc_pages_def split: if_splits sum.splits dest: alloc_loop_page_faults)

lemma free_pid_page_faults:
  "free_pid p m = Inr (m', r) \<Longrightarrow> page_faults m' = page_faults m"
  by (auto simp: free_pid_def split: option.splits sum.splits dest: release_frames_page_faults)

lemma deallocate_pid_page_faults:
  "deallocate_pid p s = Inr s' \<Longrightarrow> page_faults (mem s') = page_faults (mem s)"
  by (auto simp: deallocate_pid_def split: option.splits sum.splits dest: release_frames_page_faults)

lemma choose_victim_page_faults:
  "choose_victim orc s = Inr (f, s') \<Longrightarrow> page_faults (mem s') = page_faults (mem s)"
  by (auto simp: choose_victim_def py_randrange_def Let_def
      split: if_splits list.splits option.splits sum.splits prod.splits
      dest: release_frame_page_faults)

lemma load_page_page_faults:
  "load_page orc p n f s = Inr (s', r) \<Longrightarrow> page_faults (mem s') = page_faults (mem s)"
  by (auto simp: load_page_def Let_def split: if_splits)

lemma access_page_page_faults:
  "access_page orc p n s = Inr (s', r) \<Longrightarrow> page_faults (mem s') = page_faults (mem s) + 1"
  by (auto simp: access_page_def Let_def
      split: if_splits option.splits sum.splits prod.splits
      dest!: load_page_page_faults choose_victim_page_faults)

lemma do_call_page_faults:
  assumes "do_call c s = Inr s'"
  shows "page_faults (mem s') = page_faults (mem s) + (if is_access c then 1 else 0)"
proof (cases c)
  case (AccessPage orc p n)
  with assms show ?thesis
    by (auto split: sum.splits dest: access_page_page_faults)
next
  case (CreateProcess p n)
  with assms show ?thesis by (auto simp: create_process_def)
next
  case (DeallocatePid p)
  with assms show ?thesis by (auto dest: deallocate_pid_page_faults)
next
  case (FreePid p)
  with assms show ?thesis by (auto split: sum.splits dest: free_pid_page_faults)
next
  case (AllocPages orc p n)
  with assms show ?thesis by (auto split: sum.splits dest: alloc_pages_page_faults)
next
  case (PagerReset a)
  with assms show ?thesis by (auto simp: pager_reset_def)
qed

lemma run_page_faults:
  "run cs s = Inr s' \<Longrightarrow>
   page_faults (mem s') = page_faults (mem s) + int (length (filter is_access cs))"
proof (induction cs arbitrary: s)
  case Nil
  then show ?case by simp
next
  case (Cons c cs)
  then obtain s1 where c: "do_call c s = Inr s1" and r: "run cs s1 = Inr s'"
    by (auto split: sum.splits)
  from Cons.IH [OF r] do_call_page_faults [OF c] show ?case by simp
qed

text \<open>
  C8. Every call of \<^verbatim>\<open>access_page\<close> that returns, a hit included, leaves
  \<open>page_faults\<close> exactly one higher; and over any sequence of accesses, admissions,
  deallocations, allocations and pager resets that runs to its end, the counter grows
  by the number of accesses in the sequence, so it never decreases.
\<close>

theorem page_faults_counts_accesses:
  "(access_page orc p n s = Inr (s1, r) \<longrightarrow> page_faults (mem s1) = page_faults (mem s) + 1) \<and>
   (run cs s = Inr s2 \<longrightarrow>
      page_faults (mem s2) = page_faults (mem s) + int (length (filter is_access cs)) \<and>
      page_faults (mem s) \<le> page_faults (mem s2))"
  using access_page_page_faults [of orc p n s s1 r] run_page_faults [of cs s s2] by simp

theorem page_faults_counts_accesses_witness:
  "\<exists>s0 s1 s2 s3.
     start 128 64 ''LRU'' = Inr s0 \<and>
     access_page lowest_first ''P1'' 0 s0 = Inr (s1, True, ''loaded in frame 0'') \<and>
     access_page lowest_first ''P1'' 0 s1 = Inr (s2, True, ''hit'') \<and>
     page_faults (mem s1) = 1 \<and> page_faults (mem s2) = 2 \<and>
     run [CreateProcess ''P1'' 3, AccessPage lowest_first ''P1'' 0,
          AccessPage lowest_first ''P1'' 0, DeallocatePid ''P1'', FreePid ''P1''] s0 = Inr s3 \<and>
     page_faults (mem s3) = 2"
proof -
  have "\<exists>s0 s1 s2 s3.
     start 128 64 ''LRU'' = Inr s0 \<and> page_faults (mem s0) = 0 \<and>
     access_page lowest_first ''P1'' 0 s0 = Inr (s1, True, ''loaded in frame 0'') \<and>
     access_page lowest_first ''P1'' 0 s1 = Inr (s2, True, ''hit'') \<and>
     run [CreateProcess ''P1'' 3, AccessPage lowest_first ''P1'' 0,
          AccessPage lowest_first ''P1'' 0, DeallocatePid ''P1'', FreePid ''P1''] s0 = Inr s3"
    by (simp add: start_128_64 run_defs create_process_def upt_0_2 eval_nat_numeral)
  then obtain s0 s1 s2 s3 where
    s0: "start 128 64 ''LRU'' = Inr s0" and z: "page_faults (mem s0) = 0"
    and a1: "access_page lowest_first ''P1'' 0 s0 = Inr (s1, True, ''loaded in frame 0'')"
    and a2: "access_page lowest_first ''P1'' 0 s1 = Inr (s2, True, ''hit'')"
    and r: "run [CreateProcess ''P1'' 3, AccessPage lowest_first ''P1'' 0,
          AccessPage lowest_first ''P1'' 0, DeallocatePid ''P1'', FreePid ''P1''] s0 = Inr s3"
    by blast
  from page_faults_counts_accesses [of lowest_first "''P1''" 0 s0 s1 _ "[]" s0] a1 z
  have p1: "page_faults (mem s1) = 1" by simp
  from page_faults_counts_accesses [of lowest_first "''P1''" 0 s1 s2 _ "[]" s1] a2 p1
  have p2: "page_faults (mem s2) = 2" by simp
  let ?cs = "[CreateProcess ''P1'' 3, AccessPage lowest_first ''P1'' 0,
          AccessPage lowest_first ''P1'' 0, DeallocatePid ''P1'', FreePid ''P1'']"
  from page_faults_counts_accesses [of lowest_first "''P1''" 0 s0 s1 _ ?cs s3] r
  have "page_faults (mem s3) = page_faults (mem s0) + int (length (filter is_access ?cs))"
    by blast
  with z have p3: "page_faults (mem s3) = 2" by simp
  from s0 a1 a2 p1 p2 r p3 show ?thesis by blast
qed

section \<open>LRU recency\<close>

lemma set_pop_singleton: "env_ok orc \<Longrightarrow> set_pop orc {x} = x"
  unfolding env_ok_def by (metis finite.emptyI finite.insertI insert_not_empty singletonD)

lemma set_pop_pair: "env_ok orc \<Longrightarrow> set_pop orc {x, y} = x \<or> set_pop orc {x, y} = y"
  unfolding env_ok_def
  by (metis finite.emptyI finite.insertI insert_not_empty insertE singletonD)

lemma start_two_frames:
  assumes "start t f alg = Inr s0" "length (frames (mem s0)) = 2"
  shows "s0 = \<lparr>mem = \<lparr>total_kb = t, frame_kb = f,
                 frames = [\<lparr>idx = 0, pid = None, label = None\<rparr>,
                           \<lparr>idx = Suc 0, pid = None, label = None\<rparr>],
                 free_frames = {0, Suc 0}, pid_to_frames = [], page_faults = 0,
                 allocations = 0, deallocations = 0\<rparr>,
          algorithm = alg, page_tables = [], fifo = [], lru = []\<rparr>"
proof -
  from assms(1) have nz: "f \<noteq> 0"
    by (auto simp: start_def memory_manager_init_def rebuild_def split: if_splits)
  with assms have n: "nat (max 1 (t div f)) = 2"
    by (auto simp: start_def memory_manager_init_def rebuild_def pager_init_def Let_def)
  from assms(1) nz show ?thesis
    by (auto simp: start_def memory_manager_init_def rebuild_def pager_init_def Let_def n
        upt_0_2 range_0_2)
qed

lemmas access_defs =
  access_page_def load_page_def choose_victim_def table_of_def owned_def lru_touch_def
  release_frame_def entry_def

text \<open>
  C9. Under LRU with a pool of exactly two frames, a process touches page \<open>a\<close> (loaded),
  page \<open>b\<close> (loaded in the other frame), page \<open>a\<close> again (a hit, which moves \<open>a\<close>
  behind \<open>b\<close> in the ordering) and a third page \<open>c\<close>. Loading \<open>c\<close> evicts \<open>b\<close>: the
  entry of \<open>b\<close> becomes absent, \<open>c\<close> gets the frame \<open>b\<close> had, and \<open>a\<close> keeps its
  frame. This holds whichever free frame \<^verbatim>\<open>set.pop()\<close> hands out.
\<close>

theorem lru_evicts_least_recently_used:
  assumes "env_ok o1" "env_ok o2" "a \<noteq> b" "c \<noteq> a" "c \<noteq> b"
    and "start t f ''LRU'' = Inr s0" "length (frames (mem s0)) = 2"
  shows "\<exists>fa fb s1 s2 s3 s4.
      access_page o1 p a s0 = Inr (s1, True, ''loaded in frame '' @ str_nat fa) \<and>
      access_page o2 p b s1 = Inr (s2, True, ''loaded in frame '' @ str_nat fb) \<and>
      access_page o3 p a s2 = Inr (s3, True, ''hit'') \<and>
      fa \<noteq> fb \<and> entry s3 p a = Some (Some fa) \<and> entry s3 p b = Some (Some fb) \<and>
      map (fst \<circ> fst) (lru s3) = [p, p] \<and> map (snd \<circ> fst) (lru s3) = [b, a] \<and>
      access_page o4 p c s3 = Inr (s4, True, ''loaded in frame '' @ str_nat fb) \<and>
      entry s4 p a = Some (Some fa) \<and> entry s4 p b = Some None \<and>
      entry s4 p c = Some (Some fb)"
proof -
  note s0 = start_two_frames [OF assms(6,7)]
  from set_pop_pair [OF assms(1), of 0 "Suc 0"]
  show ?thesis
  proof
    assume fa: "set_pop o1 {0, Suc 0} = 0"
    have d: "{0, Suc 0} - {0::nat} = {Suc 0}" by auto
    show ?thesis
      apply (rule exI [of _ 0], rule exI [of _ "Suc 0"])
      using assms(3,4,5)
      by (simp add: s0 access_defs fa d set_pop_singleton [OF assms(2)])
  next
    assume fa: "set_pop o1 {0, Suc 0} = Suc 0"
    have d: "{0, Suc 0} - {Suc 0} = {0::nat}" by auto
    show ?thesis
      apply (rule exI [of _ "Suc 0"], rule exI [of _ 0])
      using assms(3,4,5)
      by (simp add: s0 access_defs fa d set_pop_singleton [OF assms(2)])
  qed
qed

theorem lru_evicts_least_recently_used_witness:
  "env_ok lowest_first \<and> (0::int) \<noteq> 1 \<and> (2::int) \<noteq> 0 \<and> (2::int) \<noteq> 1 \<and>
   (\<exists>s0. start 128 64 ''LRU'' = Inr s0 \<and> length (frames (mem s0)) = 2 \<and>
     (\<exists>fa fb s1 s2 s3 s4.
        access_page lowest_first ''P1'' 0 s0 = Inr (s1, True, ''loaded in frame '' @ str_nat fa) \<and>
        access_page lowest_first ''P1'' 1 s1 = Inr (s2, True, ''loaded in frame '' @ str_nat fb) \<and>
        access_page lowest_first ''P1'' 0 s2 = Inr (s3, True, ''hit'') \<and>
        fa \<noteq> fb \<and>
        access_page lowest_first ''P1'' 2 s3 = Inr (s4, True, ''loaded in frame '' @ str_nat fb) \<and>
        entry s4 ''P1'' 0 = Some (Some fa) \<and> entry s4 ''P1'' 1 = Some None \<and>
        entry s4 ''P1'' 2 = Some (Some fb)))"
proof -
  have "\<exists>s0. start 128 64 ''LRU'' = Inr s0 \<and> length (frames (mem s0)) = 2"
    by (simp add: start_128_64)
  then obtain s0 where s0: "start 128 64 ''LRU'' = Inr s0"
    and len: "length (frames (mem s0)) = 2" by blast
  have e: "env_ok lowest_first" by (rule env_ok_lowest_first)
  have d: "(0::int) \<noteq> 1" "(2::int) \<noteq> 0" "(2::int) \<noteq> 1" by simp_all
  from lru_evicts_least_recently_used
    [OF e e d s0 len, of "''P1''" lowest_first lowest_first]
  obtain fa fb s1 s2 s3 s4 where
    "access_page lowest_first ''P1'' 0 s0 = Inr (s1, True, ''loaded in frame '' @ str_nat fa)"
    "access_page lowest_first ''P1'' 1 s1 = Inr (s2, True, ''loaded in frame '' @ str_nat fb)"
    "access_page lowest_first ''P1'' 0 s2 = Inr (s3, True, ''hit'')"
    "fa \<noteq> fb"
    "access_page lowest_first ''P1'' 2 s3 = Inr (s4, True, ''loaded in frame '' @ str_nat fb)"
    "entry s4 ''P1'' 0 = Some (Some fa)" "entry s4 ''P1'' 1 = Some None"
    "entry s4 ''P1'' 2 = Some (Some fb)"
    by blast
  with s0 len e d show ?thesis by blast
qed

section \<open>Access never reports failure\<close>

lemma load_page_entry:
  "load_page orc p n f s = Inr (s', ok, msg) \<Longrightarrow> ok \<and> entry s' p n = Some (Some f)"
  by (auto simp: load_page_def Let_def entry_def table_of_def update_conv' split: if_splits)

lemma access_page_status:
  "access_page orc p n s = Inr (s', ok, msg) \<Longrightarrow> ok \<and> (\<exists>f. entry s' p n = Some (Some f))"
  by (auto simp: access_page_def Let_def entry_def [symmetric]
      split: if_splits option.splits sum.splits prod.splits
      dest!: load_page_entry) (auto simp: entry_def table_of_def)

lemma release_frame_length:
  "release_frame f m = Inr m' \<Longrightarrow> length (frames m') = length (frames m)"
  by (auto simp: release_frame_def split: if_splits)

lemma choose_victim_ok:
  assumes "env_ok orc" "pager_wf s"
  shows "\<exists>f s'. choose_victim orc s = Inr (f, s') \<and> f < length (frames (mem s'))"
proof -
  from assms(2) have ne: "0 < length (frames (mem s))" by (simp add: pager_wf_def)
  with assms(1) have rr: "py_randrange orc (length (frames (mem s))) = Inr (randrange orc (length (frames (mem s))))"
    and rlt: "randrange orc (length (frames (mem s))) < length (frames (mem s))"
    by (auto simp: py_randrange_def env_ok_def)
  show ?thesis
  proof (cases "algorithm s = ''FIFO''")
    case True
    with assms(2) rr rlt show ?thesis
      by (cases "fifo s") (auto simp: choose_victim_def pager_wf_def)
  next
    case False
    show ?thesis
    proof (cases "lru s")
      case Nil
      with False rr rlt show ?thesis by (auto simp: choose_victim_def)
    next
      case (Cons k rest)
      obtain vpid vp ts where k: "k = ((vpid, vp), ts)" by (cases k) auto
      with Cons assms(2) obtain vt e where
        vt: "map_of (page_tables s) vpid = Some vt" and e: "map_of vt vp = Some e"
        and lt: "\<forall>f. e = Some f \<longrightarrow> f < length (frames (mem s))"
        unfolding pager_wf_def by (metis list.set_intros(1))
      show ?thesis
      proof (cases e)
        case None
        with False Cons k vt e rr rlt show ?thesis
          by (simp add: choose_victim_def)
      next
        case (Some f)
        with lt have "f < length (frames (mem s))" by simp
        with False Cons k vt e Some show ?thesis
          by (simp add: choose_victim_def release_frame_def)
      qed
    qed
  qed
qed

lemma load_page_ok:
  "f < length (frames (mem s)) \<Longrightarrow> \<exists>s' msg. load_page orc p n f s = Inr (s', True, msg)"
  by (simp add: load_page_def Let_def)

lemma map_of_append_Some:
  "map_of xs k = Some v \<Longrightarrow> map_of (xs @ ys) k = Some v"
  by (simp add: map_add_Some_iff)

lemma pager_wf_setdefault:
  assumes "pager_wf s"
  shows "pager_wf (s\<lparr>page_tables := page_tables s @ [(p, [])]\<rparr>)"
proof -
  have "\<exists>vt e. map_of (page_tables s @ [(p, [])]) vpid = Some vt \<and> map_of vt vp = Some e \<and>
                (\<forall>f. e = Some f \<longrightarrow> f < length (frames (mem s)))"
    if "((vpid, vp), ts) \<in> set (lru s)" for vpid vp ts
  proof -
    from assms that obtain vt e where
      "map_of (page_tables s) vpid = Some vt" and "map_of vt vp = Some e"
      and "\<forall>f. e = Some f \<longrightarrow> f < length (frames (mem s))"
      unfolding pager_wf_def by blast
    then show ?thesis using map_of_append_Some by fast
  qed
  with assms show ?thesis by (simp add: pager_wf_def del: map_of_append)
qed

lemma access_page_returns:
  assumes "env_ok orc" "pager_wf s"
  shows "\<exists>s' msg. access_page orc p n s = Inr (s', True, msg)"
proof -
  define s1 where "s1 = s\<lparr>mem := (mem s)\<lparr>page_faults := page_faults (mem s) + 1\<rparr>\<rparr>"
  define s2 where "s2 = (case map_of (page_tables s1) p of
                  None \<Rightarrow> s1\<lparr>page_tables := page_tables s1 @ [(p, [])]\<rparr>
                | Some t \<Rightarrow> s1)"
  have wf1: "pager_wf s1" using assms(2) by (simp add: s1_def pager_wf_def)
  have wf2: "pager_wf s2"
    using wf1 pager_wf_setdefault [of s1 p] by (simp add: s2_def split: option.splits)
  have ap: "access_page orc p n s =
     (case map_of (table_of (page_tables s2) p) n of
            Some (Some f) \<Rightarrow>
              Inr (if algorithm s2 = ''LRU''
                   then s2\<lparr>lru := lru_touch (p, n) (time_now orc) (lru s2)\<rparr>
                   else s2,
                   True, ''hit'')
          | _ \<Rightarrow>
              (if free_frames (mem s2) \<noteq> {} then
                 let fidx = set_pop orc (free_frames (mem s2)) in
                 load_page orc p n fidx
                   (s2\<lparr>mem := (mem s2)\<lparr>free_frames := free_frames (mem s2) - {fidx}\<rparr>\<rparr>)
               else
                 (case choose_victim orc s2 of
                    Inl e \<Rightarrow> Inl e
                  | Inr (fidx, s3) \<Rightarrow> load_page orc p n fidx s3)))"
    unfolding access_page_def s1_def s2_def Let_def by (rule refl)
  show ?thesis
  proof (cases "\<exists>f. map_of (table_of (page_tables s2) p) n = Some (Some f)")
    case True
    then show ?thesis by (auto simp: ap)
  next
    case False
    then have miss: "map_of (table_of (page_tables s2) p) n = None \<or>
                     map_of (table_of (page_tables s2) p) n = Some None"
      by (cases "map_of (table_of (page_tables s2) p) n") auto
    show ?thesis
    proof (cases "free_frames (mem s2) = {}")
      case True
      from choose_victim_ok [OF assms(1) wf2] obtain f s3 where
        cv: "choose_victim orc s2 = Inr (f, s3)" and lt: "f < length (frames (mem s3))" by blast
      from load_page_ok [OF lt, of orc p n] obtain s' msg where
        "load_page orc p n f s3 = Inr (s', True, msg)" by blast
      with miss True cv show ?thesis by (auto simp: ap)
    next
      case ne: False
      let ?f = "set_pop orc (free_frames (mem s2))"
      from wf2 ne assms(1) have "?f \<in> free_frames (mem s2)"
        by (simp add: env_ok_def pager_wf_def)
      with wf2 have lt: "?f < length (frames (mem s2))" by (auto simp: pager_wf_def)
      let ?s = "s2\<lparr>mem := (mem s2)\<lparr>free_frames := free_frames (mem s2) - {?f}\<rparr>\<rparr>"
      from lt have "?f < length (frames (mem ?s))" by simp
      from load_page_ok [OF this, of orc p n] obtain s' msg where
        "load_page orc p n ?f ?s = Inr (s', True, msg)" by blast
      with miss ne show ?thesis by (auto simp: ap Let_def)
    qed
  qed
qed

text \<open>
  So \<^verbatim>\<open>access_page\<close> has no failure status of its own (\<open>access_page_status\<close>), and
  it returns from every state in which free, queued and LRU-recorded frames are frames
  of the pool and every LRU key is a key of its process's page table
  (\<open>access_page_returns\<close>). The code does not keep the last condition:
  \<^verbatim>\<open>create_process\<close> on an admitted process replaces its table and leaves its LRU
  keys behind.
\<close>

text \<open>
  C10 (access never fails). Two frames, LRU. P1 is admitted with three pages and loads
  page 2; P1 is admitted again with one page, which replaces its table by one holding
  page 0 only while the LRU ordering keeps the key of page 2; P1 loads page 0, and the
  pool is full. The next access that misses, here page 0 of the never admitted process
  P9, takes the oldest LRU key, page 2 of P1, and reads \<^verbatim>\<open>self.page_tables[vpid][vp]\<close>
  (line 140), a key the table no longer has: the call raises \<^verbatim>\<open>KeyError\<close> and returns
  no status at all. The same happens for P1 itself with a page outside its range.
\<close>

theorem access_page_raises_after_readmission:
  "\<exists>s. run_from 128 64 ''LRU''
         [CreateProcess ''P1'' 3, AccessPage lowest_first ''P1'' 2,
          CreateProcess ''P1'' 1, AccessPage lowest_first ''P1'' 0] = Inr s \<and>
       page_tables s = [(''P1'', [(0, Some 1)])] \<and>
       map fst (lru s) = [(''P1'', 2), (''P1'', 0)] \<and>
       free_frames (mem s) = {} \<and>
       access_page lowest_first ''P9'' 0 s = Inl KeyError \<and>
       access_page lowest_first ''P1'' 7 s = Inl KeyError"
  by (simp add: start_128_64 run_defs create_process_def upt_0_2 eval_nat_numeral)

end
